theory Spec2Isabelle
  imports Main "HOL-Library.AList" "HOL-Library.Multiset"
begin

section \<open>The server-side DOM adapter (domino\_adapter.ts)\<close>

text \<open>
  A shallow embedding of \<^verbatim>\<open>packages/platform-server/src/domino_adapter.ts\<close>.
  JavaScript strings are modelled as \<^typ>\<open>string\<close>: one \<^typ>\<open>char\<close> per UTF-16 code
  unit, for strings whose code units are below 256.  An exception is a value
  \<open>Inl e\<close> of a sum type, a normal return is \<open>Inr v\<close>.  Definitions carry the names
  of the source; a leading underscore is dropped (\<^verbatim>\<open>_readStyleAttribute\<close> is
  \<open>readStyleAttribute\<close>, \<^verbatim>\<open>_notImplemented\<close> is \<open>notImplemented\<close>).
\<close>

subsection \<open>Errors\<close>

text \<open>
  \<open>Error msg\<close> is \<^verbatim>\<open>new Error(msg)\<close>; \<open>TypeError\<close> is the error the engine raises
  when a property of \<^verbatim>\<open>undefined\<close> is read or a non-function is called (its message is
  the engine's own and is not modelled).
\<close>

datatype js_error = Error string | TypeError

text \<open>
  \<^verbatim>\<open>function _notImplemented(methodName: string) {
    return new Error('This method is not implemented in DominoAdapter: ' + methodName); }\<close>
\<close>

definition notImplemented :: "string \<Rightarrow> js_error" where
  "notImplemented methodName =
     Error (''This method is not implemented in DominoAdapter: '' @ methodName)"

subsection \<open>Values\<close>

text \<open>
  The dynamically typed values that the property operations pass around
  (\<^verbatim>\<open>any\<close>): \<^verbatim>\<open>undefined\<close>, \<^verbatim>\<open>null\<close>, booleans, strings and references to objects.
  Numbers are left out; no operation of the adapter inspects one.
\<close>

datatype jsval = JUndefined | JNull | JBool bool | JStr string | JObj nat

subsection \<open>Capabilities that do not exist on the server\<close>

text \<open>
  \<^verbatim>\<open>getHistory(): History { throw _notImplemented('getHistory'); }
  getLocation(): Location { throw _notImplemented('getLocation'); }
  getDistributedNodes(el: any): Node[] { throw _notImplemented('getDistributedNodes'); }
  getCookie(name: string): string { throw _notImplemented('getCookie'); }
  setCookie(name: string, value: string) { throw _notImplemented('setCookie'); }\<close>
\<close>

definition getHistory :: "js_error + jsval" where
  "getHistory = Inl (notImplemented ''getHistory'')"

definition getLocation :: "js_error + jsval" where
  "getLocation = Inl (notImplemented ''getLocation'')"

definition getDistributedNodes :: "jsval \<Rightarrow> js_error + jsval list" where
  "getDistributedNodes el = Inl (notImplemented ''getDistributedNodes'')"

definition getCookie :: "string \<Rightarrow> js_error + string" where
  "getCookie name = Inl (notImplemented ''getCookie'')"

definition setCookie :: "string \<Rightarrow> string \<Rightarrow> js_error + unit" where
  "setCookie name v = Inl (notImplemented ''setCookie'')"


subsection \<open>Nodes\<close>

text \<open>
  A node is an object of the document engine; the adapter reads four of its fields.
  Nodes live in a store indexed by their identity, so that \<^verbatim>\<open>===\<close> on two nodes is
  equality of identities and a field that refers to a node (or is \<^verbatim>\<open>null\<close> or
  \<^verbatim>\<open>undefined\<close>, both \<open>None\<close>) is a \<open>node_id option\<close>.  The default view of a
  document is a window, which is not a node.
\<close>

type_synonym node_id = nat
type_synonym window_id = nat

record node =
  parent :: "node_id option"
  nodeType :: int
  ownerDocument :: "node_id option"
  defaultView :: "window_id option"

type_synonym dom = "node_id \<Rightarrow> node"

subsection \<open>contains\<close>

text \<open>
  \<^verbatim>\<open>contains(nodeA: any, nodeB: any): boolean {
    let inner = nodeB;
    while (inner) {
      if (inner === nodeA) return true;
      inner = inner.parent;
    }
    return false;
  }\<close>
  The loop has no bound: on a cyclic parent chain that does not meet \<open>nodeA\<close> it
  runs forever, which is the value \<open>None\<close> of the model.
\<close>

partial_function (option) contains_loop ::
  "dom \<Rightarrow> node_id option \<Rightarrow> node_id option \<Rightarrow> bool option" where
  "contains_loop d nodeA inner =
     (case inner of
        None \<Rightarrow> Some False
      | Some n \<Rightarrow>
          if Some n = nodeA then Some True
          else contains_loop d nodeA (parent (d n)))"

definition contains :: "dom \<Rightarrow> node_id option \<Rightarrow> node_id option \<Rightarrow> bool option" where
  "contains d nodeA nodeB = contains_loop d nodeA nodeB"

text \<open>
  The relation between a node and its parent, and the parent chains that end
  (the tree invariant the adapter assumes).
\<close>

definition parent_rel :: "dom \<Rightarrow> (node_id \<times> node_id) set" where
  "parent_rel d = {(c, p). parent (d c) = Some p}"

definition proper_ancestor :: "dom \<Rightarrow> node_id \<Rightarrow> node_id \<Rightarrow> bool" where
  "proper_ancestor d a b = ((b, a) \<in> (parent_rel d)\<^sup>+)"

definition ancestor_or_self :: "dom \<Rightarrow> node_id \<Rightarrow> node_id \<Rightarrow> bool" where
  "ancestor_or_self d a b = ((b, a) \<in> (parent_rel d)\<^sup>*)"

inductive chain_ends :: "dom \<Rightarrow> node_id option \<Rightarrow> bool" for d where
  chain_ends_null: "chain_ends d None"
| chain_ends_step: "chain_ends d (parent (d n)) \<Longrightarrow> chain_ends d (Some n)"

text \<open>Two stores for concrete runs: one of parentless nodes, one where node 1 hangs under node 0.\<close>

definition detached_dom :: dom where
  "detached_dom = (\<lambda>n. \<lparr>parent = None, nodeType = 1, ownerDocument = None, defaultView = None\<rparr>)"

definition pair_dom :: dom where
  "pair_dom = (\<lambda>n. \<lparr>parent = (if n = 1 then Some 0 else None), nodeType = 1,
                      ownerDocument = None, defaultView = None\<rparr>)"

subsection \<open>The default document and the node classifiers\<close>

text \<open>
  \<^verbatim>\<open>private static defaultDoc: Document;
  getDefaultDocument(): Document {
    if (!DominoAdapter.defaultDoc) {
      DominoAdapter.defaultDoc = domino.createDocument();
    }
    return DominoAdapter.defaultDoc;
  }
  isTextNode(node: any): boolean { return node.nodeType === DominoAdapter.defaultDoc.TEXT_NODE; }
  isCommentNode(node: any): boolean {
    return node.nodeType === DominoAdapter.defaultDoc.COMMENT_NODE;
  }\<close>
  The static field is the adapter's only state; it starts \<^verbatim>\<open>undefined\<close>.  A document
  carries the node type constants the classifiers read.  The document that
  \<^verbatim>\<open>domino.createDocument()\<close> would return is a parameter of \<open>getDefaultDocument\<close>.
  The argument of a classifier is a node object, so reading its \<^verbatim>\<open>nodeType\<close> succeeds;
  reading a constant from the static field is a type error while the field is
  \<^verbatim>\<open>undefined\<close>.
\<close>

record document =
  doc_id :: nat
  TEXT_NODE :: int
  COMMENT_NODE :: int
  ELEMENT_NODE :: int

record adapter_static =
  defaultDoc :: "document option"

definition initial_static :: adapter_static where
  "initial_static = \<lparr>defaultDoc = None\<rparr>"

definition getDefaultDocument :: "document \<Rightarrow> adapter_static \<Rightarrow> document \<times> adapter_static" where
  "getDefaultDocument created st =
     (case defaultDoc st of
        None \<Rightarrow> (created, st\<lparr>defaultDoc := Some created\<rparr>)
      | Some doc \<Rightarrow> (doc, st))"

definition isTextNode :: "adapter_static \<Rightarrow> node \<Rightarrow> js_error + bool" where
  "isTextNode st nd =
     (case defaultDoc st of
        None \<Rightarrow> Inl TypeError
      | Some doc \<Rightarrow> Inr (nodeType nd = TEXT_NODE doc))"

definition isCommentNode :: "adapter_static \<Rightarrow> node \<Rightarrow> js_error + bool" where
  "isCommentNode st nd =
     (case defaultDoc st of
        None \<Rightarrow> Inl TypeError
      | Some doc \<Rightarrow> Inr (nodeType nd = COMMENT_NODE doc))"

subsection \<open>Event dispatch\<close>

text \<open>
  \<^verbatim>\<open>dispatchEvent(el: Node, evt: any) {
    el.dispatchEvent(evt);
    // Dispatch the event to the window also.
    const doc = el.ownerDocument || el;
    const win = (doc as any).defaultView;
    if (win) {
      win.dispatchEvent(evt);
    }
  }\<close>
\<close>

datatype event_target = NodeTarget node_id | WindowTarget window_id

text \<open>
  Modelled from the spec: the engine's native \<^verbatim>\<open>dispatchEvent\<close>, which is not part of
  the adapter.  It hands the event object to the listeners of the target it is called on
  and does not reach the default view by itself; the state it changes is the list of
  deliveries made so far.
\<close>

definition native_dispatch ::
  "event_target \<Rightarrow> 'ev \<Rightarrow> (event_target \<times> 'ev) list \<Rightarrow> (event_target \<times> 'ev) list" where
  "native_dispatch target evt deliveries = deliveries @ [(target, evt)]"

definition dispatchEvent ::
  "dom \<Rightarrow> node_id \<Rightarrow> 'ev \<Rightarrow> (event_target \<times> 'ev) list \<Rightarrow> (event_target \<times> 'ev) list" where
  "dispatchEvent d el evt deliveries =
     (let deliveries1 = native_dispatch (NodeTarget el) evt deliveries;
          doc = (case ownerDocument (d el) of Some owner \<Rightarrow> owner | None \<Rightarrow> el);
          win = defaultView (d doc)
      in case win of
           Some w \<Rightarrow> native_dispatch (WindowTarget w) evt deliveries1
         | None \<Rightarrow> deliveries1)"

text \<open>A store for a concrete run: node 0 is a document with window 7, node 1 belongs to it.\<close>

definition window_dom :: dom where
  "window_dom = (\<lambda>n. \<lparr>parent = (if n = 1 then Some 0 else None),
                        nodeType = (if n = 0 then 9 else 1),
                        ownerDocument = (if n = 0 then None else Some 0),
                        defaultView = (if n = 0 then Some 7 else None)\<rparr>)"

subsection \<open>Elements: attributes and properties\<close>

text \<open>
  Modelled from the spec: the element of the document engine, which is not part of the
  adapter.  It carries string-valued attributes, read and written through
  \<^verbatim>\<open>getAttribute\<close> (\<^verbatim>\<open>null\<close>, here \<open>None\<close>, for a missing attribute) and
  \<^verbatim>\<open>setAttribute\<close> (which stores the string form of the value it is given).  Its
  properties are dynamically typed: \<open>props el name\<close> is what the direct read
  \<^verbatim>\<open>el[name]\<close> returns in the state \<open>el\<close>, whatever the engine computes it from
  (\<^verbatim>\<open>undefined\<close> for a name it does not know), and \<^verbatim>\<open>el.textContent\<close> is the read of
  the property named \<^verbatim>\<open>textContent\<close>.

  What a direct property write \<^verbatim>\<open>el[name] = v\<close> does to the element is the engine's
  own: a reflected property such as \<^verbatim>\<open>href\<close> or \<^verbatim>\<open>title\<close> shares its name with an
  attribute and changes it, and an accessor may coerce or resolve the value that is read
  back.  The adapter does not depend on it, so the engine's property write is a
  parameter of \<open>setProperty\<close>, of type \<open>prop_setter\<close>.
\<close>

record element =
  attrs :: "string \<rightharpoonup> string"
  props :: "string \<Rightarrow> jsval"

type_synonym prop_setter = "element \<Rightarrow> string \<Rightarrow> jsval \<Rightarrow> element"

fun dom_string :: "jsval \<Rightarrow> string" where
  "dom_string JUndefined = ''undefined''"
| "dom_string JNull = ''null''"
| "dom_string (JBool b) = (if b then ''true'' else ''false'')"
| "dom_string (JStr s) = s"
| "dom_string (JObj r) = ''[object Object]''"

definition el_getAttribute :: "element \<Rightarrow> string \<Rightarrow> string option" where
  "el_getAttribute el name = attrs el name"

definition el_setAttribute :: "element \<Rightarrow> string \<Rightarrow> jsval \<Rightarrow> element" where
  "el_setAttribute el name v = el\<lparr>attrs := (attrs el)(name \<mapsto> dom_string v)\<rparr>"

definition prop_read :: "element \<Rightarrow> string \<Rightarrow> jsval" where
  "prop_read el name = props el name"

text \<open>
  Modelled from the spec: \<^verbatim>\<open>getAttribute\<close> and \<^verbatim>\<open>setAttribute\<close> of the base adapter,
  which \<open>getProperty\<close> and \<open>setProperty\<close> call through \<^verbatim>\<open>this\<close>; they delegate to the
  element.
\<close>

definition getAttribute :: "element \<Rightarrow> string \<Rightarrow> jsval" where
  "getAttribute el name = (case el_getAttribute el name of None \<Rightarrow> JNull | Some s \<Rightarrow> JStr s)"

definition setAttribute :: "element \<Rightarrow> string \<Rightarrow> jsval \<Rightarrow> element" where
  "setAttribute el name v = el_setAttribute el name v"

text \<open>
  \<^verbatim>\<open>getProperty(el: Element, name: string): any {
    if (name === 'href') {
      return this.getAttribute(el, 'href');
    } else if (name === 'innerText') {
      return el.textContent;
    }
    return (<any>el)[name];
  }
  setProperty(el: Element, name: string, value: any) {
    if (name === 'href') {
      this.setAttribute(el, 'href', value);
    } else if (name === 'innerText') {
      el.textContent = value;
    }
    (<any>el)[name] = value;
  }\<close>
\<close>

definition getProperty :: "element \<Rightarrow> string \<Rightarrow> jsval" where
  "getProperty el name =
     (if name = ''href'' then getAttribute el ''href''
      else if name = ''innerText'' then prop_read el ''textContent''
      else prop_read el name)"

definition setProperty :: "prop_setter \<Rightarrow> element \<Rightarrow> string \<Rightarrow> jsval \<Rightarrow> element" where
  "setProperty prop_write el name v =
     (let el1 = (if name = ''href'' then setAttribute el ''href'' v
                 else if name = ''innerText'' then prop_write el ''textContent'' v
                 else el)
      in prop_write el1 name v)"

text \<open>
  Elements and a property setter for concrete runs: an element without attributes; an
  anchor as the engine presents it, whose \<^verbatim>\<open>href\<close> attribute is the raw string while
  the direct read of \<^verbatim>\<open>href\<close> gives the resolved address; and a property write that
  reflects \<^verbatim>\<open>title\<close> and \<^verbatim>\<open>href\<close> into the attributes of the same name, resolves
  what \<^verbatim>\<open>href\<close> reads back, and stores every other property as it is given.
\<close>

definition blank_element :: element where
  "blank_element = \<lparr>attrs = Map.empty, props = (\<lambda>name. JUndefined)\<rparr>"

definition anchor_element :: element where
  "anchor_element =
     \<lparr>attrs = [''href'' \<mapsto> ''/x''],
      props = (\<lambda>name. if name = ''href'' then JStr ''http://host/x''
                     else if name = ''title'' then JStr ''t''
                     else JUndefined)\<rparr>"

definition reflecting_write :: prop_setter where
  "reflecting_write el name v =
     (if name = ''title'' then
        el\<lparr>attrs := (attrs el)(''title'' \<mapsto> dom_string v),
           props := (props el)(''title'' := JStr (dom_string v))\<rparr>
      else if name = ''href'' then
        el\<lparr>attrs := (attrs el)(''href'' \<mapsto> dom_string v),
           props := (props el)(''href'' := JStr (''http://host'' @ dom_string v))\<rparr>
      else el\<lparr>props := (props el)(name := v)\<rparr>)"


subsection \<open>Strings\<close>

text \<open>
  The string operations of the language that the style code calls.  White space, for
  \<^verbatim>\<open>trim\<close>, is the white space and line terminator code units below 256: tab, line feed,
  vertical tab, form feed, carriage return, space and no-break space.
\<close>

definition is_space :: "char \<Rightarrow> bool" where
  "is_space c = (c \<in> set [CHR 0x09, CHR 0x0A, CHR 0x0B, CHR 0x0C, CHR 0x0D, CHR 0x20, CHR 0xA0])"

definition js_trim :: "string \<Rightarrow> string" where
  "js_trim s = rev (dropWhile is_space (rev (dropWhile is_space s)))"

text \<open>\<^verbatim>\<open>s.indexOf(c)\<close>: the index of the first occurrence, or \<open>-1\<close>.\<close>

fun indexOf :: "string \<Rightarrow> char \<Rightarrow> int" where
  "indexOf [] c = - 1"
| "indexOf (x # xs) c =
     (if x = c then 0 else (let r = indexOf xs c in if r = - 1 then - 1 else r + 1))"

text \<open>
  \<^verbatim>\<open>s.substr(start, length)\<close> and \<^verbatim>\<open>s.substr(start)\<close>: a negative start counts from the
  end, and both bounds are clamped to the string.
\<close>

definition substr :: "string \<Rightarrow> int \<Rightarrow> int \<Rightarrow> string" where
  "substr s start len =
     (let size = int (length s);
          b = (if start < 0 then max (size + start) 0 else min start size);
          n = min (max len 0) (size - b)
      in take (nat n) (drop (nat b) s))"

definition substr_from :: "string \<Rightarrow> int \<Rightarrow> string" where
  "substr_from s start =
     (let size = int (length s);
          b = (if start < 0 then max (size + start) 0 else min start size)
      in drop (nat b) s)"

text \<open>
  \<^verbatim>\<open>s.split(/;+/g)\<close>: the text before the first run of semicolons, then the split of
  what follows the run; a string without a semicolon is its own only piece.
\<close>

function split_semis :: "string \<Rightarrow> string list" where
  "split_semis s =
     (case dropWhile (\<lambda>c. c \<noteq> CHR '';'') s of
        [] \<Rightarrow> [s]
      | sep # rest \<Rightarrow>
          takeWhile (\<lambda>c. c \<noteq> CHR '';'') s # split_semis (dropWhile (\<lambda>c. c = CHR '';'') rest))"
  by pat_completeness auto
termination
proof (relation "measure length")
  show "wf (measure length)" by simp
next
  fix s :: string and sep rest
  assume a: "dropWhile (\<lambda>c. c \<noteq> CHR '';'') s = sep # rest"
  have "length (dropWhile (\<lambda>c. c = CHR '';'') rest) \<le> length rest"
    by (rule length_dropWhile_le)
  also have "length rest < length (dropWhile (\<lambda>c. c \<noteq> CHR '';'') s)"
    by (simp add: a)
  also have "\<dots> \<le> length s" by (rule length_dropWhile_le)
  finally show "(dropWhile (\<lambda>c. c = CHR '';'') rest, s) \<in> measure length" by simp
qed

declare split_semis.simps [simp del]

subsection \<open>Plain objects used as maps\<close>

text \<open>
  The style map is an object literal \<^verbatim>\<open>{}\<close>.  Its own properties are kept in creation
  order.  An assignment \<^verbatim>\<open>obj[key] = v\<close> replaces the value of an own property in
  place, or creates the property after the others; the key \<^verbatim>\<open>__proto__\<close> is the
  accessor inherited from \<^verbatim>\<open>Object.prototype\<close>, so assigning a string, \<^verbatim>\<open>null\<close> or
  \<^verbatim>\<open>undefined\<close> to it creates no own property.
\<close>

definition obj_set :: "(string \<times> 'v) list \<Rightarrow> string \<Rightarrow> 'v \<Rightarrow> (string \<times> 'v) list" where
  "obj_set obj key v = (if key = ''__proto__'' then obj else AList.update key v obj)"

definition has_own :: "(string \<times> 'v) list \<Rightarrow> string \<Rightarrow> bool" where
  "has_own obj key = (map_of obj key \<noteq> None)"

text \<open>
  \<^verbatim>\<open>for (const key in obj)\<close> visits the own properties whose keys are array indices
  (canonical decimal numerals below \<open>2\<^sup>3\<^sup>2 - 1\<close>) in ascending numeric order, then the
  others in creation order.
\<close>

fun dec_value :: "string \<Rightarrow> int \<Rightarrow> int" where
  "dec_value [] acc = acc"
| "dec_value (c # cs) acc = dec_value cs (10 * acc + (of_char c - 48))"

definition is_digit :: "char \<Rightarrow> bool" where
  "is_digit c = (48 \<le> (of_char c :: int) \<and> (of_char c :: int) \<le> 57)"

definition is_array_index :: "string \<Rightarrow> bool" where
  "is_array_index key =
     (key \<noteq> [] \<and> list_all is_digit key \<and> (key = ''0'' \<or> hd key \<noteq> CHR ''0'')
      \<and> dec_value key 0 < 4294967295)"

definition for_in :: "(string \<times> 'v) list \<Rightarrow> (string \<times> 'v) list" where
  "for_in obj =
     sort_key (\<lambda>(key, v). dec_value key 0) (filter (\<lambda>(key, v). is_array_index key) obj)
     @ filter (\<lambda>(key, v). \<not> is_array_index key) obj"

subsection \<open>The style attribute codec\<close>

text \<open>
  \<^verbatim>\<open>_readStyleAttribute(element: any) {
    const styleMap = {};
    const styleAttribute = element.getAttribute('style');
    if (styleAttribute) {
      const styleList = styleAttribute.split(/;+/g);
      for (let i = 0; i < styleList.length; i++) {
        if (styleList[i].length > 0) {
          const style = styleList[i] as string;
          const colon = style.indexOf(':');
          if (colon === -1) {
            throw new Error(`Invalid CSS style: ${style}`);
          }
          (styleMap as any)[style.substr(0, colon).trim()] = style.substr(colon + 1).trim();
        }
      }
    }
    return styleMap;
  }\<close>
\<close>

fun readStyle_loop ::
  "string list \<Rightarrow> (string \<times> string) list \<Rightarrow> js_error + (string \<times> string) list" where
  "readStyle_loop [] styleMap = Inr styleMap"
| "readStyle_loop (style # rest) styleMap =
     (if length style > 0 then
        (let colon = indexOf style CHR '':'' in
         if colon = - 1 then Inl (Error (''Invalid CSS style: '' @ style))
         else readStyle_loop rest
                (obj_set styleMap (js_trim (substr style 0 colon))
                   (js_trim (substr_from style (colon + 1)))))
      else readStyle_loop rest styleMap)"

definition readStyleAttribute :: "element \<Rightarrow> js_error + (string \<times> string) list" where
  "readStyleAttribute el =
     (case el_getAttribute el ''style'' of
        None \<Rightarrow> Inr []
      | Some styleAttribute \<Rightarrow>
          if styleAttribute \<noteq> [] then readStyle_loop (split_semis styleAttribute) []
          else Inr [])"

text \<open>
  \<^verbatim>\<open>_writeStyleAttribute(element: any, styleMap: any) {
    let styleAttrValue = '';
    for (const key in styleMap) {
      const newValue = styleMap[key];
      if (newValue) {
        styleAttrValue += key + ':' + styleMap[key] + ';';
      }
    }
    element.setAttribute('style', styleAttrValue);
  }\<close>
  A value of the map is a string, or \<^verbatim>\<open>null\<close> or \<^verbatim>\<open>undefined\<close> (both \<open>None\<close>); the
  falsy ones are \<open>None\<close> and the empty string.
\<close>

fun writeStyle_loop :: "(string \<times> string option) list \<Rightarrow> string \<Rightarrow> string" where
  "writeStyle_loop [] styleAttrValue = styleAttrValue"
| "writeStyle_loop ((key, newValue) # rest) styleAttrValue =
     (case newValue of
        Some v \<Rightarrow>
          if v \<noteq> [] then writeStyle_loop rest (styleAttrValue @ key @ '':'' @ v @ '';'')
          else writeStyle_loop rest styleAttrValue
      | None \<Rightarrow> writeStyle_loop rest styleAttrValue)"

definition writeStyleAttribute :: "element \<Rightarrow> (string \<times> string option) list \<Rightarrow> element" where
  "writeStyleAttribute el styleMap =
     el_setAttribute el ''style'' (JStr (writeStyle_loop (for_in styleMap) []))"

text \<open>
  \<^verbatim>\<open>setStyle(element: any, styleName: string, styleValue?: string|null) {
    const styleMap = this._readStyleAttribute(element);
    (styleMap as any)[styleName] = styleValue;
    this._writeStyleAttribute(element, styleMap);
  }
  removeStyle(element: any, styleName: string) { this.setStyle(element, styleName, null); }
  getStyle(element: any, styleName: string): string {
    const styleMap = this._readStyleAttribute(element);
    return styleMap.hasOwnProperty(styleName) ? (styleMap as any)[styleName] : '';
  }
  hasStyle(element: any, styleName: string, styleValue?: string): boolean {
    const value = this.getStyle(element, styleName) || '';
    return styleValue ? value == styleValue : value.length > 0;
  }\<close>
  In \<open>getStyle\<close> the call \<^verbatim>\<open>styleMap.hasOwnProperty(...)\<close> looks the method up on the map
  itself first: when the style attribute has an entry named \<^verbatim>\<open>hasOwnProperty\<close>, the map
  has an own property of that name whose value is a string, and calling it is a type error.
\<close>

definition setStyle :: "element \<Rightarrow> string \<Rightarrow> string option \<Rightarrow> js_error + element" where
  "setStyle el styleName styleValue =
     (case readStyleAttribute el of
        Inl e \<Rightarrow> Inl e
      | Inr styleMap \<Rightarrow>
          Inr (writeStyleAttribute el
                 (obj_set (map (\<lambda>(key, v). (key, Some v)) styleMap) styleName styleValue)))"

definition removeStyle :: "element \<Rightarrow> string \<Rightarrow> js_error + element" where
  "removeStyle el styleName = setStyle el styleName None"

definition getStyle :: "element \<Rightarrow> string \<Rightarrow> js_error + string" where
  "getStyle el styleName =
     (case readStyleAttribute el of
        Inl e \<Rightarrow> Inl e
      | Inr styleMap \<Rightarrow>
          if has_own styleMap ''hasOwnProperty'' then Inl TypeError
          else (case map_of styleMap styleName of
                  Some v \<Rightarrow> Inr v
                | None \<Rightarrow> Inr []))"

definition hasStyle :: "element \<Rightarrow> string \<Rightarrow> string option \<Rightarrow> js_error + bool" where
  "hasStyle el styleName styleValue =
     (case getStyle el styleName of
        Inl e \<Rightarrow> Inl e
      | Inr got \<Rightarrow>
          (let v = (if got \<noteq> [] then got else [])
           in Inr (case styleValue of
                     Some sv \<Rightarrow> if sv \<noteq> [] then v = sv else length v > 0
                   | None \<Rightarrow> length v > 0)))"

text \<open>An element whose only attribute is the given style string.\<close>

definition styled :: "string \<Rightarrow> element" where
  "styled s = blank_element\<lparr>attrs := [''style'' \<mapsto> s]\<rparr>"

subsection \<open>The parse policy in the words of the specification\<close>

text \<open>
  The specification describes the parse as: split on one or more semicolons, skip empty
  segments; a segment without a colon is an error that names the segment; the key is the
  substring before the first colon and the value the substring after it, each trimmed by
  the trimming function the description names.  \<open>spec_read_style\<close> follows these words,
  with the trimming of the key as a parameter; it is compared with \<open>readStyleAttribute\<close>
  below.
\<close>

fun spec_split :: "string \<Rightarrow> string \<Rightarrow> string list" where
  "spec_split cur [] = (if cur = [] then [] else [cur])"
| "spec_split cur (c # cs) =
     (if c = CHR '';'' then (if cur = [] then spec_split [] cs else cur # spec_split [] cs)
      else spec_split (cur @ [c]) cs)"

definition spec_segments :: "string \<Rightarrow> string list" where
  "spec_segments s = spec_split [] s"

definition key_part :: "string \<Rightarrow> string" where
  "key_part seg = takeWhile (\<lambda>c. c \<noteq> CHR '':'') seg"

definition value_part :: "string \<Rightarrow> string" where
  "value_part seg = tl (dropWhile (\<lambda>c. c \<noteq> CHR '':'') seg)"

definition left_trim :: "string \<Rightarrow> string" where
  "left_trim s = dropWhile is_space s"

definition spec_read_style ::
  "(string \<Rightarrow> string) \<Rightarrow> string \<Rightarrow> js_error + (string \<times> string) list" where
  "spec_read_style key_trim a =
     (case find (\<lambda>seg. CHR '':'' \<notin> set seg) (spec_segments a) of
        Some bad \<Rightarrow> Inl (Error (''Invalid CSS style: '' @ bad))
      | None \<Rightarrow>
          Inr (foldl (\<lambda>obj seg. obj_set obj (key_trim (key_part seg)) (js_trim (value_part seg)))
                 [] (spec_segments a)))"

subsection \<open>What a written style attribute holds\<close>

text \<open>
  The entries of a style map that survive serialisation (those with a non-empty string
  value), the text that is written for them, and the shape of the maps that the parser
  produces.
\<close>

fun live_entries :: "(string \<times> string option) list \<Rightarrow> (string \<times> string) list" where
  "live_entries [] = []"
| "live_entries ((key, Some v) # rest) =
     (if v \<noteq> [] then (key, v) # live_entries rest else live_entries rest)"
| "live_entries ((key, None) # rest) = live_entries rest"

definition serialize :: "(string \<times> string) list \<Rightarrow> string" where
  "serialize es = concat (map (\<lambda>(key, v). key @ '':'' @ v @ '';'') es)"

definition key_ok :: "string \<Rightarrow> bool" where
  "key_ok key = (CHR '':'' \<notin> set key \<and> CHR '';'' \<notin> set key \<and> js_trim key = key
     \<and> key \<noteq> ''__proto__'')"

definition val_ok :: "string \<Rightarrow> bool" where
  "val_ok v = (CHR '';'' \<notin> set v \<and> js_trim v = v)"

definition canon :: "(string \<times> string) list \<Rightarrow> bool" where
  "canon obj = (distinct (map fst obj) \<and> list_all (\<lambda>(key, v). key_ok key \<and> val_ok v) obj)"

definition entry_ok :: "string \<Rightarrow> string option \<Rightarrow> bool" where
  "entry_ok name v =
     (case v of
        None \<Rightarrow> True
      | Some s \<Rightarrow> s = [] \<or> name = ''__proto__'' \<or>
          (CHR '':'' \<notin> set name \<and> CHR '';'' \<notin> set name \<and> js_trim name = name \<and> val_ok s))"

section \<open>Theorems\<close>

subsection \<open>Facts about the walk up the parent chain\<close>

lemma contains_loop_reaches:
  "(b, a) \<in> (parent_rel d)\<^sup>* \<Longrightarrow> contains_loop d (Some a) (Some b) = Some True"
proof (induction rule: converse_rtrancl_induct)
  case base
  show ?case by (subst contains_loop.simps) simp
next
  case (step y z)
  then show ?case by (subst contains_loop.simps) (simp add: parent_rel_def)
qed

lemma contains_loop_true_only:
  assumes "contains_loop d a i = Some r"
  shows "r \<longrightarrow> (\<exists>x y. a = Some x \<and> i = Some y \<and> (y, x) \<in> (parent_rel d)\<^sup>*)"
proof (rule contains_loop.raw_induct [OF _ assms])
  fix f d a i r
  assume IH: "\<And>d' a' i' r'. f d' a' i' = Some r' \<Longrightarrow>
      r' \<longrightarrow> (\<exists>x y. a' = Some x \<and> i' = Some y \<and> (y, x) \<in> (parent_rel d')\<^sup>*)"
    and body: "(case i of None \<Rightarrow> Some False
        | Some n \<Rightarrow> if Some n = a then Some True else f d a (parent (d n))) = Some r"
  show "r \<longrightarrow> (\<exists>x y. a = Some x \<and> i = Some y \<and> (y, x) \<in> (parent_rel d)\<^sup>*)"
  proof (cases i)
    case None
    with body show ?thesis by simp
  next
    case (Some n)
    show ?thesis
    proof (cases "Some n = a")
      case True
      with Some show ?thesis by auto
    next
      case False
      with Some body have "f d a (parent (d n)) = Some r" by simp
      from IH [OF this]
      have "r \<longrightarrow> (\<exists>x y. a = Some x \<and> parent (d n) = Some y \<and> (y, x) \<in> (parent_rel d)\<^sup>*)" .
      moreover have "parent (d n) = Some y \<Longrightarrow> (n, y) \<in> parent_rel d" for y
        by (simp add: parent_rel_def)
      ultimately show ?thesis
        using Some by (auto intro: converse_rtrancl_into_rtrancl)
    qed
  qed
qed

lemma contains_loop_returns: "chain_ends d i \<Longrightarrow> contains_loop d a i \<noteq> None"
proof (induction rule: chain_ends.induct)
  case chain_ends_null
  show ?case by (subst contains_loop.simps) simp
next
  case (chain_ends_step n)
  then show ?case by (subst contains_loop.simps) auto
qed

subsection \<open>Facts about the string operations\<close>

lemma indexOf_absent: "c \<notin> set s \<Longrightarrow> indexOf s c = - 1"
  by (induction s) (auto simp: Let_def)

lemma indexOf_present: "c \<in> set s \<Longrightarrow> indexOf s c = int (length (takeWhile (\<lambda>x. x \<noteq> c) s))"
  by (induction s) (auto simp: Let_def indexOf_absent)

lemma indexOf_minus1_iff: "indexOf s c = - 1 \<longleftrightarrow> c \<notin> set s"
  using indexOf_present [of c s] indexOf_absent [of c s] by auto

lemma length_takeWhile_neq: "c \<in> set s \<Longrightarrow> length (takeWhile (\<lambda>x. x \<noteq> c) s) < length s"
  by (induction s) auto

lemma substr_key: "c \<in> set s \<Longrightarrow> substr s 0 (indexOf s c) = takeWhile (\<lambda>x. x \<noteq> c) s"
proof -
  assume a: "c \<in> set s"
  have "length (takeWhile (\<lambda>x. x \<noteq> c) s) \<le> length s" by (rule length_takeWhile_le)
  moreover have "take (length (takeWhile (\<lambda>x. x \<noteq> c) s)) s = takeWhile (\<lambda>x. x \<noteq> c) s"
    by (metis append_eq_conv_conj takeWhile_dropWhile_id)
  ultimately show ?thesis
    by (simp add: substr_def indexOf_present [OF a] Let_def min_def max_def)
qed

lemma substr_value: "c \<in> set s \<Longrightarrow> substr_from s (indexOf s c + 1) = tl (dropWhile (\<lambda>x. x \<noteq> c) s)"
proof -
  assume a: "c \<in> set s"
  let ?n = "length (takeWhile (\<lambda>x. x \<noteq> c) s)"
  have d: "drop ?n s = dropWhile (\<lambda>x. x \<noteq> c) s"
    by (metis append_eq_conv_conj takeWhile_dropWhile_id)
  have lt: "?n < length s"
    using a by (rule length_takeWhile_neq)
  have "drop (Suc ?n) s = tl (dropWhile (\<lambda>x. x \<noteq> c) s)"
    using d by (metis drop_Suc tl_drop)
  moreover have "nat (int ?n + 1) = Suc ?n" by simp
  ultimately show ?thesis
    using lt by (simp add: substr_from_def indexOf_present [OF a] Let_def min_def)
qed

lemma js_trim_idem: "js_trim (js_trim s) = js_trim s"
proof -
  let ?t = "rev (dropWhile is_space (rev (dropWhile is_space s)))"
  have "dropWhile is_space ?t = ?t"
  proof (cases "?t = []")
    case True then show ?thesis by (simp only: True) simp
  next
    case False
    have ne: "dropWhile is_space s \<noteq> []"
    proof
      assume "dropWhile is_space s = []"
      then have "?t = []" by (simp only: rev.simps dropWhile.simps)
      with False show False by contradiction
    qed
    then have "\<not> is_space (hd (dropWhile is_space s))" by (rule hd_dropWhile)
    moreover have "hd ?t = hd (dropWhile is_space s)"
    proof -
      obtain x xs where e: "dropWhile is_space s = x # xs" using ne by (cases "dropWhile is_space s") auto
      have nx: "\<not> is_space x" using e hd_dropWhile [OF ne] by simp
      have "dropWhile is_space (rev xs @ [x]) = dropWhile is_space (rev xs) @ (if \<forall>y\<in>set (rev xs). is_space y then dropWhile is_space [x] else [x])"
        by (simp add: dropWhile_append)
      then have "\<exists>ys. dropWhile is_space (rev (x # xs)) = ys @ [x]" using nx by auto
      then obtain ys where "dropWhile is_space (rev (x # xs)) = ys @ [x]" by blast
      then show ?thesis using e by simp
    qed
    ultimately show ?thesis using False by (simp add: dropWhile_eq_self_iff)
  qed
  then show ?thesis by (simp add: js_trim_def)
qed

lemma set_js_trim: "set (js_trim s) \<subseteq> set s"
  unfolding js_trim_def by (auto dest!: set_dropWhileD)

subsection \<open>The parser against the parse policy\<close>

lemma spec_split_append: "CHR '';'' \<notin> set p \<Longrightarrow> spec_split cur (p @ rest) = spec_split (cur @ p) rest"
  by (induction p arbitrary: cur) auto

lemma spec_split_semis: "spec_split [] (dropWhile (\<lambda>c. c = CHR '';'') rest) = spec_split [] rest"
  by (induction rest) auto

lemma spec_segments_split_semis: "spec_segments s = filter (\<lambda>seg. seg \<noteq> []) (split_semis s)"
proof (induction s rule: split_semis.induct)
  case (1 s)
  let ?tw = "takeWhile (\<lambda>c. c \<noteq> CHR '';'') s"
  let ?dw = "dropWhile (\<lambda>c. c \<noteq> CHR '';'') s"
  have no: "CHR '';'' \<notin> set ?tw" by (auto dest: set_takeWhileD)
  have s: "s = ?tw @ ?dw" by simp
  show ?case
  proof (cases ?dw)
    case Nil
    then have nos: "CHR '';'' \<notin> set s" by auto
    have "spec_split [] (s @ []) = spec_split ([] @ s) []"
      using nos by (rule spec_split_append)
    then have "spec_segments s = (if s = [] then [] else [s])"
      by (simp add: spec_segments_def)
    moreover have "split_semis s = [s]"
      by (subst split_semis.simps) (simp only: Nil list.case)
    ultimately show ?thesis by simp
  next
    case (Cons sep rest)
    have sep: "sep = CHR '';''"
      using hd_dropWhile [of "\<lambda>c. c \<noteq> CHR '';''" s] Cons by simp
    have "spec_segments s = spec_split [] (?tw @ ?dw)"
      by (simp add: spec_segments_def)
    also have "\<dots> = spec_split ([] @ ?tw) ?dw"
      using no by (rule spec_split_append)
    also have "\<dots> = spec_split ?tw (CHR '';'' # rest)"
      by (simp only: Cons sep append_Nil)
    also have "\<dots> = (if ?tw = [] then [] else [?tw]) @ spec_split [] rest" by simp
    also have "spec_split [] rest = spec_segments (dropWhile (\<lambda>c. c = CHR '';'') rest)"
      by (simp add: spec_segments_def spec_split_semis)
    also have "\<dots> = filter (\<lambda>seg. seg \<noteq> []) (split_semis (dropWhile (\<lambda>c. c = CHR '';'') rest))"
      using "1.IH" [OF Cons] .
    finally have "spec_segments s = filter (\<lambda>seg. seg \<noteq> []) (?tw # split_semis (dropWhile (\<lambda>c. c = CHR '';'') rest))"
      by simp
    moreover have "split_semis s = ?tw # split_semis (dropWhile (\<lambda>c. c = CHR '';'') rest)"
      by (subst split_semis.simps) (simp only: Cons list.case)
    ultimately show ?thesis by simp
  qed
qed

lemma split_semis_no_semicolon: "seg \<in> set (split_semis s) \<Longrightarrow> CHR '';'' \<notin> set seg"
proof (induction s rule: split_semis.induct)
  case (1 s)
  let ?tw = "takeWhile (\<lambda>c. c \<noteq> CHR '';'') s"
  let ?dw = "dropWhile (\<lambda>c. c \<noteq> CHR '';'') s"
  have no: "CHR '';'' \<notin> set ?tw" by (auto dest: set_takeWhileD)
  show ?case
  proof (cases ?dw)
    case Nil
    then have nos: "CHR '';'' \<notin> set s" by auto
    have "split_semis s = [s]"
      by (subst split_semis.simps) (simp only: Nil list.case)
    then show ?thesis using nos "1.prems" by simp
  next
    case (Cons sep rest)
    have "split_semis s = ?tw # split_semis (dropWhile (\<lambda>c. c = CHR '';'') rest)"
      by (subst split_semis.simps) (simp only: Cons list.case)
    then show ?thesis using "1.prems" "1.IH" [OF Cons] no by auto
  qed
qed

lemma readStyle_loop_char:
  "readStyle_loop segs obj =
     (case find (\<lambda>seg. CHR '':'' \<notin> set seg) (filter (\<lambda>seg. seg \<noteq> []) segs) of
        Some bad \<Rightarrow> Inl (Error (''Invalid CSS style: '' @ bad))
      | None \<Rightarrow>
          Inr (foldl (\<lambda>obj seg. obj_set obj (js_trim (key_part seg)) (js_trim (value_part seg)))
                 obj (filter (\<lambda>seg. seg \<noteq> []) segs)))"
proof (induction segs arbitrary: obj)
  case Nil
  show ?case by simp
next
  case (Cons style rest)
  show ?case
  proof (cases "style = []")
    case True
    then show ?thesis by (simp add: Cons.IH split: option.split)
  next
    case False
    show ?thesis
    proof (cases "CHR '':'' \<in> set style")
      case True
      then have "indexOf style CHR '':'' \<noteq> - 1" by (simp add: indexOf_minus1_iff)
      then show ?thesis
        using False True
        by (simp add: Cons.IH Let_def substr_key substr_value key_part_def value_part_def
            split: option.split)
    next
      case no: False
      then have "indexOf style CHR '':'' = - 1" by (simp add: indexOf_minus1_iff)
      then show ?thesis using False no by (simp add: Let_def split: option.split)
    qed
  qed
qed

lemma readStyleAttribute_char:
  "readStyleAttribute el =
     (case el_getAttribute el ''style'' of
        None \<Rightarrow> Inr []
      | Some a \<Rightarrow> spec_read_style js_trim a)"
proof (cases "el_getAttribute el ''style''")
  case None
  then show ?thesis by (simp add: readStyleAttribute_def)
next
  case (Some a)
  show ?thesis
  proof (cases "a = []")
    case True
    then show ?thesis using Some
      by (simp add: readStyleAttribute_def spec_read_style_def spec_segments_def)
  next
    case False
    then show ?thesis using Some
      by (simp add: readStyleAttribute_def spec_read_style_def readStyle_loop_char
          spec_segments_split_semis split: option.split)
  qed
qed

subsection \<open>Reading back what was written\<close>

lemma writeStyle_loop_serialize:
  "writeStyle_loop es acc = acc @ serialize (live_entries es)"
  by (induction es acc rule: writeStyle_loop.induct) (auto simp: serialize_def split: option.split)

lemma set_live_entries: "set (live_entries es) = {(key, v). (key, Some v) \<in> set es \<and> v \<noteq> []}"
  by (induction es rule: live_entries.induct) auto

lemma distinct_live_entries: "distinct (map fst es) \<Longrightarrow> distinct (map fst (live_entries es))"
  by (induction es rule: live_entries.induct) (force simp: set_live_entries)+

lemma mset_for_in: "mset (for_in obj) = mset obj"
proof -
  have "(\<lambda>(key, v). \<not> is_array_index key) = (\<lambda>x. \<not> (case x of (key, v) \<Rightarrow> is_array_index key))"
    by (auto simp: fun_eq_iff)
  then show ?thesis by (simp add: for_in_def)
qed

lemma set_for_in: "set (for_in obj) = set obj"
  using mset_for_in [of obj] by (metis set_mset_mset)

lemma distinct_for_in: "distinct (map fst (for_in obj)) = distinct (map fst obj)"
proof -
  have "mset (map fst (for_in obj)) = mset (map fst obj)"
    using mset_for_in [of obj] by (metis mset_map)
  then show ?thesis by (rule mset_eq_imp_distinct_iff)
qed

lemma map_of_live_for_in:
  assumes "distinct (map fst obj)"
  shows "map_of (live_entries (for_in obj)) key = Some v \<longleftrightarrow> map_of obj key = Some (Some v) \<and> v \<noteq> []"
proof -
  have d: "distinct (map fst (live_entries (for_in obj)))"
    using assms by (simp add: distinct_live_entries distinct_for_in)
  have "map_of (live_entries (for_in obj)) key = Some v \<longleftrightarrow> (key, v) \<in> set (live_entries (for_in obj))"
    using d by simp
  also have "\<dots> \<longleftrightarrow> (key, Some v) \<in> set obj \<and> v \<noteq> []"
    by (simp add: set_live_entries set_for_in)
  also have "\<dots> \<longleftrightarrow> map_of obj key = Some (Some v) \<and> v \<noteq> []"
    using assms by simp
  finally show ?thesis .
qed

lemma spec_segments_serialize:
  "list_all (\<lambda>(key, v). CHR '';'' \<notin> set key \<and> CHR '';'' \<notin> set v) es \<Longrightarrow>
   spec_segments (serialize es) = map (\<lambda>(key, v). key @ '':'' @ v) es"
proof (induction es)
  case Nil
  show ?case by (simp add: spec_segments_def serialize_def)
next
  case (Cons e es)
  obtain key v where e: "e = (key, v)" by (cases e)
  have no: "CHR '';'' \<notin> set (key @ '':'' @ v)" using Cons.prems e by simp
  have "serialize (e # es) = (key @ '':'' @ v) @ (CHR '';'' # serialize es)"
    by (simp add: serialize_def e)
  then have "spec_segments (serialize (e # es)) = spec_split [] ((key @ '':'' @ v) @ (CHR '';'' # serialize es))"
    by (simp only: spec_segments_def)
  also have "\<dots> = spec_split ([] @ (key @ '':'' @ v)) (CHR '';'' # serialize es)"
    using no by (rule spec_split_append)
  also have "\<dots> = (key @ '':'' @ v) # spec_segments (serialize es)"
    by (simp add: spec_segments_def)
  finally show ?case using Cons e by simp
qed

lemma update_fresh: "key \<notin> fst ` set obj \<Longrightarrow> AList.update key v obj = obj @ [(key, v)]"
  by (induction obj) auto

lemma foldl_obj_set_fresh:
  "distinct (map fst es) \<Longrightarrow> fst ` set es \<inter> fst ` set obj = {} \<Longrightarrow> ''__proto__'' \<notin> fst ` set es \<Longrightarrow>
   foldl (\<lambda>obj (key, v). obj_set obj key v) obj es = obj @ es"
proof (induction es arbitrary: obj)
  case Nil
  show ?case by simp
next
  case (Cons e es)
  obtain key v where e: "e = (key, v)" by (cases e)
  have fresh: "key \<notin> fst ` set obj" using Cons.prems(2) e by auto
  have np: "key \<noteq> ''__proto__''" using Cons.prems(3) e by auto
  have step: "obj_set obj key v = obj @ [(key, v)]"
    using np by (simp add: obj_set_def update_fresh [OF fresh])
  have "foldl (\<lambda>obj (key, v). obj_set obj key v) (obj @ [(key, v)]) es = (obj @ [(key, v)]) @ es"
  proof (rule Cons.IH)
    show "distinct (map fst es)" using Cons.prems(1) by simp
    show "fst ` set es \<inter> fst ` set (obj @ [(key, v)]) = {}"
      using Cons.prems(1,2) e by auto
    show "''__proto__'' \<notin> fst ` set es" using Cons.prems(3) by auto
  qed
  then show ?case using step e by simp
qed

lemma key_part_serialized: "CHR '':'' \<notin> set key \<Longrightarrow> key_part (key @ CHR '':'' # v) = key"
  by (simp add: key_part_def takeWhile_append)

lemma value_part_serialized: "CHR '':'' \<notin> set key \<Longrightarrow> value_part (key @ CHR '':'' # v) = v"
  by (simp add: value_part_def dropWhile_append)

lemma spec_read_style_serialize:
  assumes "canon es"
  shows "spec_read_style js_trim (serialize es) = Inr es"
proof -
  have ok: "list_all (\<lambda>(key, v). key_ok key \<and> val_ok v) es" and d: "distinct (map fst es)"
    using assms by (simp_all add: canon_def)
  have segs: "spec_segments (serialize es) = map (\<lambda>(key, v). key @ '':'' @ v) es"
    using ok by (intro spec_segments_serialize) (auto simp: list_all_iff key_ok_def val_ok_def)
  have nobad: "find (\<lambda>seg. CHR '':'' \<notin> set seg) (map (\<lambda>(key, v). key @ '':'' @ v) es) = None"
    by (auto simp: find_None_iff)
  have "foldl (\<lambda>obj seg. obj_set obj (js_trim (key_part seg)) (js_trim (value_part seg))) obj
          (map (\<lambda>(key, v). key @ '':'' @ v) es')
        = foldl (\<lambda>obj (key, v). obj_set obj key v) obj es'"
    if "list_all (\<lambda>(key, v). key_ok key \<and> val_ok v) es'" for es' obj
    using that
    by (induction es' arbitrary: obj)
       (auto simp: key_ok_def val_ok_def key_part_serialized value_part_serialized)
  from this [OF ok]
  have "foldl (\<lambda>obj seg. obj_set obj (js_trim (key_part seg)) (js_trim (value_part seg))) []
          (map (\<lambda>(key, v). key @ '':'' @ v) es) = foldl (\<lambda>obj (key, v). obj_set obj key v) [] es" .
  also have "\<dots> = [] @ es"
    using d ok by (intro foldl_obj_set_fresh) (auto simp: list_all_iff key_ok_def)
  finally have fold: "foldl (\<lambda>obj seg. obj_set obj (js_trim (key_part seg)) (js_trim (value_part seg))) []
          (map (\<lambda>(key, v). key @ '':'' @ v) es) = es" by simp
  show ?thesis
    by (simp only: spec_read_style_def segs nobad option.case fold)
qed

lemma set_update_subset: "set (AList.update key v obj) \<subseteq> insert (key, v) (set obj)"
  by (induction obj) auto

lemma distinct_obj_set: "distinct (map fst obj) \<Longrightarrow> distinct (map fst (obj_set obj key v))"
  by (simp add: obj_set_def distinct_update)

lemma set_key_part: "set (key_part seg) \<subseteq> set seg"
proof
  fix x assume "x \<in> set (key_part seg)"
  then show "x \<in> set seg" unfolding key_part_def by (rule set_takeWhileD [THEN conjunct1])
qed

lemma colon_key_part: "CHR '':'' \<notin> set (key_part seg)"
  unfolding key_part_def by (auto dest: set_takeWhileD)

lemma set_tl_subset: "set (tl xs) \<subseteq> set xs"
  by (cases xs) auto

lemma set_value_part: "set (value_part seg) \<subseteq> set seg"
proof
  fix x assume "x \<in> set (value_part seg)"
  then have "x \<in> set (tl (dropWhile (\<lambda>c. c \<noteq> CHR '':'') seg))"
    by (simp only: value_part_def)
  then have "x \<in> set (dropWhile (\<lambda>c. c \<noteq> CHR '':'') seg)"
    by (rule set_tl_subset [THEN subsetD])
  then show "x \<in> set seg" by (rule set_dropWhileD)
qed

lemma canon_obj_set:
  assumes "canon obj" and "CHR '':'' \<notin> set key" and "CHR '';'' \<notin> set key"
    and "js_trim key = key" and "val_ok v"
  shows "canon (obj_set obj key v)"
proof (cases "key = ''__proto__''")
  case True
  then show ?thesis using assms(1) by (simp add: obj_set_def)
next
  case False
  have "distinct (map fst (AList.update key v obj))"
    using assms(1) by (simp add: canon_def distinct_update)
  moreover have "list_all (\<lambda>(key, v). key_ok key \<and> val_ok v) (AList.update key v obj)"
    using assms False set_update_subset [of key v obj]
    by (auto simp: canon_def list_all_iff key_ok_def)
  ultimately show ?thesis using False by (simp add: obj_set_def canon_def)
qed

lemma canon_foldl:
  "canon obj \<Longrightarrow> list_all (\<lambda>seg. CHR '';'' \<notin> set seg) segs \<Longrightarrow>
   canon (foldl (\<lambda>obj seg. obj_set obj (js_trim (key_part seg)) (js_trim (value_part seg))) obj segs)"
proof (induction segs arbitrary: obj)
  case Nil
  then show ?case by simp
next
  case (Cons seg segs)
  have no: "CHR '';'' \<notin> set seg" using Cons.prems(2) by simp
  have k: "set (js_trim (key_part seg)) \<subseteq> set (key_part seg)" by (rule set_js_trim)
  have kp: "CHR '':'' \<notin> set (key_part seg)" "set (key_part seg) \<subseteq> set seg"
    by (rule colon_key_part, rule set_key_part)
  have vp: "set (value_part seg) \<subseteq> set seg" by (rule set_value_part)
  have v: "set (js_trim (value_part seg)) \<subseteq> set seg"
    using set_js_trim [of "value_part seg"] vp by blast
  have "canon (obj_set obj (js_trim (key_part seg)) (js_trim (value_part seg)))"
  proof (rule canon_obj_set [OF Cons.prems(1)])
    show "CHR '':'' \<notin> set (js_trim (key_part seg))" using k kp by blast
    show "CHR '';'' \<notin> set (js_trim (key_part seg))" using k kp no by blast
    show "js_trim (js_trim (key_part seg)) = js_trim (key_part seg)" by (rule js_trim_idem)
    show "val_ok (js_trim (value_part seg))" using v no by (auto simp: val_ok_def js_trim_idem)
  qed
  then show ?case using Cons.IH Cons.prems(2) by simp
qed

lemma spec_segments_no_semicolon: "list_all (\<lambda>seg. CHR '';'' \<notin> set seg) (spec_segments a)"
  by (auto simp: spec_segments_split_semis list_all_iff dest: split_semis_no_semicolon)

lemma readStyleAttribute_canon:
  assumes "readStyleAttribute el = Inr styleMap"
  shows "canon styleMap"
proof (cases "el_getAttribute el ''style''")
  case None
  then show ?thesis using assms by (auto simp: readStyleAttribute_char canon_def)
next
  case (Some a)
  have "canon (foldl (\<lambda>obj seg. obj_set obj (js_trim (key_part seg)) (js_trim (value_part seg))) []
                (spec_segments a))"
    by (rule canon_foldl) (simp_all add: canon_def spec_segments_no_semicolon)
  then show ?thesis
    using assms Some by (auto simp: readStyleAttribute_char spec_read_style_def split: option.splits)
qed

lemma attr_written:
  "el_getAttribute (writeStyleAttribute el obj) ''style'' = Some (serialize (live_entries (for_in obj)))"
  by (simp add: writeStyleAttribute_def el_getAttribute_def el_setAttribute_def
      writeStyle_loop_serialize)

lemma read_after_write:
  assumes "canon (live_entries (for_in obj))"
  shows "readStyleAttribute (writeStyleAttribute el obj) = Inr (live_entries (for_in obj))"
  by (simp add: readStyleAttribute_char attr_written spec_read_style_serialize [OF assms])

lemma map_of_lift: "map_of (map (\<lambda>(key, v). (key, Some v)) obj) key = map_option Some (map_of obj key)"
  by (induction obj) auto

lemma canon_after_set:
  assumes c: "canon styleMap" and ok: "entry_ok name v"
  shows "canon (live_entries (for_in (obj_set (map (\<lambda>(key, v). (key, Some v)) styleMap) name v)))"
proof -
  let ?lift = "map (\<lambda>(key, v). (key, Some v)) styleMap"
  let ?L = "obj_set ?lift name v"
  have fst_lift: "map fst ?lift = map fst styleMap" by (induction styleMap) auto
  have "distinct (map fst ?lift)" using c by (simp only: fst_lift canon_def)
  then have dL: "distinct (map fst ?L)" by (rule distinct_obj_set)
  have d: "distinct (map fst (live_entries (for_in ?L)))"
    using dL by (simp add: distinct_live_entries distinct_for_in)
  have sub: "set ?L \<subseteq> insert (name, v) (set ?lift)"
    using set_update_subset [of name v ?lift] by (auto simp: obj_set_def)
  have "key_ok key \<and> val_ok s" if "(key, s) \<in> set (live_entries (for_in ?L))" for key s
  proof -
    from that have in_L: "(key, Some s) \<in> set ?L" and ne: "s \<noteq> []"
      by (simp_all add: set_live_entries set_for_in)
    show ?thesis
    proof (cases "(key, Some s) \<in> set ?lift")
      case True
      then have "(key, s) \<in> set styleMap" by auto
      then show ?thesis using c by (auto simp: canon_def list_all_iff)
    next
      case False
      with in_L sub have e: "key = name" "v = Some s" by auto
      have "name \<noteq> ''__proto__''"
      proof
        assume "name = ''__proto__''"
        then have "?L = ?lift" by (simp add: obj_set_def)
        with in_L False show False by simp
      qed
      then show ?thesis using ok e ne by (auto simp: entry_ok_def key_ok_def)
    qed
  qed
  then show ?thesis using d by (auto simp: canon_def list_all_iff)
qed

lemma setStyle_result:
  assumes r: "readStyleAttribute el = Inr styleMap" and ok: "entry_ok name v"
  shows "setStyle el name v
           = Inr (writeStyleAttribute el (obj_set (map (\<lambda>(key, v). (key, Some v)) styleMap) name v))
       \<and> readStyleAttribute (writeStyleAttribute el (obj_set (map (\<lambda>(key, v). (key, Some v)) styleMap) name v))
           = Inr (live_entries (for_in (obj_set (map (\<lambda>(key, v). (key, Some v)) styleMap) name v)))"
  using r read_after_write [OF canon_after_set [OF readStyleAttribute_canon [OF r] ok]]
  by (simp add: setStyle_def)

lemma map_of_after_set:
  assumes c: "canon styleMap" and np: "name \<noteq> ''__proto__''"
  shows "map_of (live_entries (for_in (obj_set (map (\<lambda>(key, v). (key, Some v)) styleMap) name v))) key
         = (if key = name then (case v of None \<Rightarrow> None | Some s \<Rightarrow> if s \<noteq> [] then Some s else None)
            else (case map_of styleMap key of None \<Rightarrow> None | Some s \<Rightarrow> if s \<noteq> [] then Some s else None))"
proof -
  let ?lift = "map (\<lambda>(key, v). (key, Some v)) styleMap"
  let ?L = "obj_set ?lift name v"
  have fst_lift: "map fst ?lift = map fst styleMap" by (induction styleMap) auto
  have "distinct (map fst ?lift)" using c by (simp only: fst_lift canon_def)
  then have dL: "distinct (map fst ?L)" by (rule distinct_obj_set)
  have mL: "map_of ?L key = (if key = name then Some v else map_option Some (map_of styleMap key))"
    using np by (simp add: obj_set_def update_conv' map_of_lift)
  have iff: "map_of (live_entries (for_in ?L)) key = Some s \<longleftrightarrow> map_of ?L key = Some (Some s) \<and> s \<noteq> []" for s
    by (rule map_of_live_for_in [OF dL])
  show ?thesis
  proof (cases "map_of (live_entries (for_in ?L)) key")
    case None
    then have "\<not> (map_of ?L key = Some (Some s) \<and> s \<noteq> [])" for s using iff [of s] by simp
    then show ?thesis using None unfolding mL by (auto split: option.splits)
  next
    case (Some s)
    then have "map_of ?L key = Some (Some s) \<and> s \<noteq> []" using iff [of s] by simp
    then show ?thesis using Some unfolding mL by (auto split: option.splits if_splits)
  qed
qed



subsection \<open>Unsupported capabilities\<close>

text \<open>
  Claim C7.  \<open>getHistory()\<close>, \<open>getLocation()\<close>, \<open>getDistributedNodes(el)\<close>,
  \<open>getCookie(name)\<close> and \<open>setCookie(name, value)\<close> raise, for every argument, the
  error built by \<open>_notImplemented\<close>, whose message is the fixed "not implemented"
  text followed by the name of the capability; none of them returns a value.
\<close>

theorem C7_unsupported_capabilities_raise:
  "getHistory = Inl (Error (''This method is not implemented in DominoAdapter: '' @ ''getHistory''))
   \<and> getLocation = Inl (Error (''This method is not implemented in DominoAdapter: '' @ ''getLocation''))
   \<and> getDistributedNodes el =
       Inl (Error (''This method is not implemented in DominoAdapter: '' @ ''getDistributedNodes''))
   \<and> getCookie name = Inl (Error (''This method is not implemented in DominoAdapter: '' @ ''getCookie''))
   \<and> setCookie name v = Inl (Error (''This method is not implemented in DominoAdapter: '' @ ''setCookie''))
   \<and> isl getHistory \<and> isl getLocation \<and> isl (getDistributedNodes el)
   \<and> isl (getCookie name) \<and> isl (setCookie name v)"
  by (simp add: getHistory_def getLocation_def getDistributedNodes_def getCookie_def
      setCookie_def notImplemented_def)

subsection \<open>contains\<close>

text \<open>
  Claim C1, as stated, fails.  The walk starts at \<open>nodeB\<close> itself, so a node with no
  parent at all, which is not a proper ancestor of itself, is reported to contain itself.
\<close>

theorem C1_contains_self_counterexample:
  "contains detached_dom (Some 0) (Some 0) = Some True \<and> \<not> proper_ancestor detached_dom 0 0"
proof -
  have "contains detached_dom (Some 0) (Some 0) = Some True"
    unfolding contains_def by (subst contains_loop.simps) simp
  moreover have "parent_rel detached_dom = {}"
    by (simp add: parent_rel_def detached_dom_def)
  then have "\<not> proper_ancestor detached_dom 0 0"
    by (simp add: proper_ancestor_def)
  ultimately show ?thesis by simp
qed

text \<open>
  Claim C1, amended.  For all nodes \<open>a\<close> and \<open>b\<close>, \<open>contains(a, b)\<close> returns true iff
  \<open>a\<close> is \<open>b\<close> itself or a proper ancestor of \<open>b\<close>, reached by following the parent
  chain upward from \<open>b\<close>; when the parent chain of \<open>b\<close> ends (the tree invariant), the call
  returns, and returns false in every other case.  In particular \<open>contains(a, a)\<close> is
  true, and \<open>contains(a, null)\<close> is false.
\<close>

theorem C1_contains_ancestor_or_self:
  "(contains d (Some a) (Some b) = Some True \<longleftrightarrow> ancestor_or_self d a b)
   \<and> (chain_ends d (Some b) \<longrightarrow> contains d (Some a) (Some b) = Some (ancestor_or_self d a b))
   \<and> ancestor_or_self d a b = (a = b \<or> proper_ancestor d a b)
   \<and> contains d (Some a) (Some a) = Some True
   \<and> contains d nodeA None = Some False"
proof -
  have anc: "ancestor_or_self d a b = (a = b \<or> proper_ancestor d a b)"
    unfolding ancestor_or_self_def proper_ancestor_def by (metis rtrancl_eq_or_trancl)
  have fwd: "contains d (Some a) (Some b) = Some True \<Longrightarrow> ancestor_or_self d a b"
    using contains_loop_true_only [of d "Some a" "Some b" True]
    by (simp add: contains_def ancestor_or_self_def)
  have bwd: "ancestor_or_self d a b \<Longrightarrow> contains d (Some a) (Some b) = Some True"
    by (simp add: contains_def ancestor_or_self_def contains_loop_reaches)
  have total: "chain_ends d (Some b) \<Longrightarrow> contains d (Some a) (Some b) = Some (ancestor_or_self d a b)"
  proof -
    assume "chain_ends d (Some b)"
    then obtain r where r: "contains d (Some a) (Some b) = Some r"
      using contains_loop_returns [of d "Some b" "Some a"] by (auto simp: contains_def)
    show ?thesis using r fwd bwd by (cases r) auto
  qed
  have self: "contains d (Some a) (Some a) = Some True"
    unfolding contains_def by (subst contains_loop.simps) simp
  have null: "contains d nodeA None = Some False"
    unfolding contains_def by (subst contains_loop.simps) simp
  show ?thesis using fwd bwd total anc self null by blast
qed

text \<open>The amended claim at a two-node chain: node 1 under node 0.\<close>

theorem C1_contains_witness:
  "chain_ends pair_dom (Some 1)
   \<and> contains pair_dom (Some 0) (Some 1) = Some True
   \<and> ancestor_or_self pair_dom 0 1"
proof -
  have p1: "parent (pair_dom 1) = Some 0" and p0: "parent (pair_dom 0) = None"
    by (simp_all add: pair_dom_def)
  have "chain_ends pair_dom None" by (rule chain_ends_null)
  then have "chain_ends pair_dom (parent (pair_dom 0))" by (simp only: p0)
  then have "chain_ends pair_dom (Some 0)" by (rule chain_ends_step)
  then have "chain_ends pair_dom (parent (pair_dom 1))" by (simp only: p1)
  then have ends: "chain_ends pair_dom (Some 1)" by (rule chain_ends_step)
  have "(1, 0) \<in> parent_rel pair_dom" by (simp add: parent_rel_def pair_dom_def)
  then have anc: "ancestor_or_self pair_dom 0 1" by (auto simp: ancestor_or_self_def)
  from C1_contains_ancestor_or_self [of pair_dom 0 1] ends anc
  show ?thesis by simp
qed

subsection \<open>The style attribute codec\<close>

lemma find_filter: "find P (filter Q xs) = find (\<lambda>x. Q x \<and> P x) xs"
  by (induction xs) auto

text \<open>
  Claim C2, as stated, fails.  It speaks of every element, but on an element whose style
  attribute is \<open>color red\<close> the call \<open>setStyle(el, "color", "red")\<close> raises the parse
  error and writes nothing, and so does the \<open>getStyle\<close> that follows.
\<close>

theorem C2_malformed_style_counterexample:
  "setStyle (styled ''color red'') ''color'' (Some ''red'') = Inl (Error ''Invalid CSS style: color red'')
   \<and> getStyle (styled ''color red'') ''color'' = Inl (Error ''Invalid CSS style: color red'')"
proof -
  have "readStyleAttribute (styled ''color red'') = Inl (Error ''Invalid CSS style: color red'')"
    by code_simp
  then show ?thesis by (simp add: setStyle_def getStyle_def)
qed

text \<open>
  Claim C2, amended.  For every element whose style attribute parses without error and
  has no entry named \<open>hasOwnProperty\<close> with a non-empty value:
  \<open>setStyle(el, "color", "red")\<close> followed by \<open>getStyle(el, "color")\<close> returns \<open>red\<close>,
  and \<open>setStyle(el, "color", null)\<close> followed by \<open>getStyle(el, "color")\<close> returns the
  empty string.  For every element, with no condition on its style attribute, serialising
  the style map \<open>{color: "red", margin: ""}\<close> writes the style attribute \<open>color:red;\<close>,
  and serialising any style map writes exactly the entries whose value is a non-empty
  string, as \<open>key:value;\<close> in enumeration order: an entry with an empty or null value
  contributes nothing.
\<close>

theorem C2_style_codec:
  "(readStyleAttribute el = Inr styleMap
      \<and> (map_of styleMap ''hasOwnProperty'' = None \<or> map_of styleMap ''hasOwnProperty'' = Some [])
    \<longrightarrow> (\<exists>el'. setStyle el ''color'' (Some ''red'') = Inr el' \<and> getStyle el' ''color'' = Inr ''red'')
      \<and> (\<exists>el'. setStyle el ''color'' None = Inr el' \<and> getStyle el' ''color'' = Inr []))
   \<and> el_getAttribute
        (writeStyleAttribute anyEl [(''color'', Some ''red''), (''margin'', Some [])]) ''style''
      = Some ''color:red;''
   \<and> el_getAttribute (writeStyleAttribute anyEl obj) ''style''
      = Some (serialize (live_entries (for_in obj)))"
proof -
  have setget:
    "(\<exists>el'. setStyle el ''color'' (Some ''red'') = Inr el' \<and> getStyle el' ''color'' = Inr ''red'')
     \<and> (\<exists>el'. setStyle el ''color'' None = Inr el' \<and> getStyle el' ''color'' = Inr [])"
    if r: "readStyleAttribute el = Inr styleMap"
      and h: "map_of styleMap ''hasOwnProperty'' = None \<or> map_of styleMap ''hasOwnProperty'' = Some []"
  proof -
    have c: "canon styleMap" using r by (rule readStyleAttribute_canon)
    have t: "js_trim ''color'' = ''color''" "js_trim ''red'' = ''red''"
      by (simp_all add: js_trim_def is_space_def)
    have ok1: "entry_ok ''color'' (Some ''red'')" by (simp add: entry_ok_def val_ok_def t)
    have ok2: "entry_ok ''color'' None" by (simp add: entry_ok_def)
    have hn: "(case map_of styleMap ''hasOwnProperty'' of None \<Rightarrow> None
                | Some s \<Rightarrow> if s \<noteq> [] then Some s else None) = None"
      using h by auto
    have "getStyle (writeStyleAttribute el
              (obj_set (map (\<lambda>(key, v). (key, Some v)) styleMap) ''color'' (Some ''red''))) ''color''
          = Inr ''red''"
      using setStyle_result [OF r ok1]
      by (simp add: getStyle_def has_own_def map_of_after_set [OF c] hn)
    moreover have "getStyle (writeStyleAttribute el
              (obj_set (map (\<lambda>(key, v). (key, Some v)) styleMap) ''color'' None)) ''color''
          = Inr []"
      using setStyle_result [OF r ok2]
      by (simp add: getStyle_def has_own_def map_of_after_set [OF c] hn)
    ultimately show ?thesis
      using setStyle_result [OF r ok1] setStyle_result [OF r ok2] by simp
  qed
  have "for_in [(''color'', Some ''red''), (''margin'', Some [])]
        = [(''color'', Some ''red''), (''margin'', Some [])]"
    by code_simp
  then have ex: "el_getAttribute
         (writeStyleAttribute anyEl [(''color'', Some ''red''), (''margin'', Some [])]) ''style''
       = Some ''color:red;''"
    by (simp add: attr_written serialize_def)
  show ?thesis using setget ex attr_written by blast
qed

text \<open>
  The amended claim C2 at an element with the style attribute \<open>margin:0; color:blue\<close>,
  and at one whose style attribute has an entry named \<open>hasOwnProperty\<close> with an empty
  value, which the write drops.
\<close>

theorem C2_style_codec_witness:
  "readStyleAttribute (styled ''margin:0; color:blue'') = Inr [(''margin'', ''0''), (''color'', ''blue'')]
   \<and> map_of [(''margin'', ''0''), (''color'', ''blue'')] ''hasOwnProperty'' = None
   \<and> (\<exists>el'. setStyle (styled ''margin:0; color:blue'') ''color'' (Some ''red'') = Inr el'
          \<and> getStyle el' ''color'' = Inr ''red'')
   \<and> (\<exists>el'. setStyle (styled ''margin:0; color:blue'') ''color'' None = Inr el'
          \<and> getStyle el' ''color'' = Inr [])
   \<and> readStyleAttribute (styled ''hasOwnProperty:;color:blue'')
       = Inr [(''hasOwnProperty'', []), (''color'', ''blue'')]
   \<and> map_of [(''hasOwnProperty'', []), (''color'', ''blue'')] ''hasOwnProperty'' = Some []
   \<and> (\<exists>el'. setStyle (styled ''hasOwnProperty:;color:blue'') ''color'' (Some ''red'') = Inr el'
          \<and> getStyle el' ''color'' = Inr ''red'')"
proof -
  have r: "readStyleAttribute (styled ''margin:0; color:blue'')
      = Inr [(''margin'', ''0''), (''color'', ''blue'')]"
    by code_simp
  have h: "map_of [(''margin'', ''0''), (''color'', ''blue'')] ''hasOwnProperty'' = None"
    by simp
  have r2: "readStyleAttribute (styled ''hasOwnProperty:;color:blue'')
       = Inr [(''hasOwnProperty'', []), (''color'', ''blue'')]"
    by code_simp
  have h2: "map_of [(''hasOwnProperty'', []), (''color'', ''blue'')] ''hasOwnProperty'' = Some []"
    by simp
  from C2_style_codec [of "styled ''margin:0; color:blue''"
      "[(''margin'', ''0''), (''color'', ''blue'')]"] r h
  have a: "(\<exists>el'. setStyle (styled ''margin:0; color:blue'') ''color'' (Some ''red'') = Inr el'
          \<and> getStyle el' ''color'' = Inr ''red'')
   \<and> (\<exists>el'. setStyle (styled ''margin:0; color:blue'') ''color'' None = Inr el'
          \<and> getStyle el' ''color'' = Inr [])"
    by blast
  from C2_style_codec [of "styled ''hasOwnProperty:;color:blue''"
      "[(''hasOwnProperty'', []), (''color'', ''blue'')]"] r2 h2
  have b: "\<exists>el'. setStyle (styled ''hasOwnProperty:;color:blue'') ''color'' (Some ''red'') = Inr el'
          \<and> getStyle el' ''color'' = Inr ''red''"
    by blast
  show ?thesis using r h r2 h2 a b by blast
qed

text \<open>
  Claim C3.  When the style attribute of an element has a non-empty segment without a
  colon, \<open>getStyle\<close>, \<open>setStyle\<close>, \<open>removeStyle\<close> and \<open>hasStyle\<close> all raise, for every
  style name and value, the error whose message is \<open>Invalid CSS style: \<close> followed by
  the text of the first such segment; none of them returns a value.
\<close>

theorem C3_malformed_style_raises:
  assumes a: "el_getAttribute el ''style'' = Some a"
    and seg: "seg \<in> set (split_semis a)" "seg \<noteq> []" "CHR '':'' \<notin> set seg"
  shows "\<exists>bad. find (\<lambda>s. s \<noteq> [] \<and> CHR '':'' \<notin> set s) (split_semis a) = Some bad
     \<and> getStyle el name = Inl (Error (''Invalid CSS style: '' @ bad))
     \<and> setStyle el name v = Inl (Error (''Invalid CSS style: '' @ bad))
     \<and> removeStyle el name = Inl (Error (''Invalid CSS style: '' @ bad))
     \<and> hasStyle el name sv = Inl (Error (''Invalid CSS style: '' @ bad))"
proof -
  have "find (\<lambda>s. s \<noteq> [] \<and> CHR '':'' \<notin> set s) (split_semis a) \<noteq> None"
    using seg by (auto simp: find_None_iff)
  then obtain bad where bad: "find (\<lambda>s. s \<noteq> [] \<and> CHR '':'' \<notin> set s) (split_semis a) = Some bad"
    by auto
  have ne: "a \<noteq> []"
  proof
    assume "a = []"
    then have "split_semis a = [[]]" by (subst split_semis.simps) simp
    with seg show False by simp
  qed
  have r: "readStyleAttribute el = Inl (Error (''Invalid CSS style: '' @ bad))"
    using a ne bad by (simp add: readStyleAttribute_def readStyle_loop_char find_filter)
  have "getStyle el name = Inl (Error (''Invalid CSS style: '' @ bad))" for name
    by (simp add: getStyle_def r)
  moreover have "setStyle el name v = Inl (Error (''Invalid CSS style: '' @ bad))" for v
    by (simp add: setStyle_def r)
  ultimately show ?thesis using bad by (simp add: removeStyle_def hasStyle_def)
qed

text \<open>
  Claim C3 at the style attribute \<open>margin:0;color red;b\<close>, which has two segments without
  a colon: the error names the first one.
\<close>

theorem C3_malformed_style_witness:
  "getStyle (styled ''margin:0;color red;b'') ''margin'' = Inl (Error ''Invalid CSS style: color red'')
   \<and> setStyle (styled ''margin:0;color red;b'') ''margin'' (Some ''1px'') = Inl (Error ''Invalid CSS style: color red'')
   \<and> removeStyle (styled ''margin:0;color red;b'') ''margin'' = Inl (Error ''Invalid CSS style: color red'')
   \<and> hasStyle (styled ''margin:0;color red;b'') ''margin'' None = Inl (Error ''Invalid CSS style: color red'')"
proof -
  have a: "el_getAttribute (styled ''margin:0;color red;b'') ''style'' = Some ''margin:0;color red;b''"
    by (simp add: el_getAttribute_def styled_def)
  have s: "split_semis ''margin:0;color red;b'' = [''margin:0'', ''color red'', ''b'']"
    by code_simp
  have seg: "''b'' \<in> set (split_semis ''margin:0;color red;b'')" "''b'' \<noteq> []" "CHR '':'' \<notin> set ''b''"
    by (simp_all add: s)
  have f: "find (\<lambda>s. s \<noteq> [] \<and> CHR '':'' \<notin> set s) (split_semis ''margin:0;color red;b'') = Some ''color red''"
    by (simp add: s)
  from C3_malformed_style_raises [OF a seg, of "''margin''" "Some ''1px''" None]
  show ?thesis by (simp add: f)
qed

text \<open>
  Claim C4, as stated, fails.  It takes the key to be the left-trimmed substring before
  the first colon; on the style attribute \<open>color :red\<close> that would be the key \<open>color\<close>
  followed by a space, but the parser trims the key on both sides and stores \<open>color\<close>.
\<close>

theorem C4_key_trim_counterexample:
  "readStyleAttribute (styled ''color :red'') = Inr [(''color'', ''red'')]
   \<and> spec_read_style left_trim ''color :red'' = Inr [(''color '', ''red'')]
   \<and> readStyleAttribute (styled ''color :red'') \<noteq> spec_read_style left_trim ''color :red''"
proof -
  have a: "readStyleAttribute (styled ''color :red'') = Inr [(''color'', ''red'')]" by code_simp
  have b: "spec_read_style left_trim ''color :red'' = Inr [(''color '', ''red'')]" by code_simp
  show ?thesis by (simp add: a b)
qed

text \<open>
  Claim C4, amended.  For every element, parsing its style attribute splits on one or more
  consecutive semicolons and skips empty segments; if a non-empty segment has no colon,
  it raises the error naming the first such segment; otherwise it assigns, for each
  non-empty segment in order, the value (the trimmed substring after the first colon) to
  the key (the substring before the first colon, trimmed on both sides), by property
  assignment on the style map: a later segment replaces the value of an earlier one with
  the same key, and the key \<open>__proto__\<close> creates no entry.  A missing or empty style
  attribute gives the empty map.
\<close>

theorem C4_parse_policy:
  "readStyleAttribute el =
     (case el_getAttribute el ''style'' of
        None \<Rightarrow> Inr []
      | Some a \<Rightarrow> spec_read_style js_trim a)"
  by (rule readStyleAttribute_char)

text \<open>
  Claim C9, as stated, fails.  The empty string is a value, but it is falsy, so
  \<open>hasStyle(el, n, "")\<close> is the check without a value: on an element with the style
  \<open>color:red\<close> it returns true although \<open>getStyle(el, "color")\<close> is not the empty string.
\<close>

theorem C9_hasStyle_empty_value_counterexample:
  "hasStyle (styled ''color:red'') ''color'' (Some '''') = Inr True
   \<and> getStyle (styled ''color:red'') ''color'' = Inr ''red''
   \<and> ''red'' \<noteq> ''''"
  by code_simp

text \<open>
  Claim C9, amended.  For every element \<open>el\<close> and style name \<open>n\<close>, \<open>hasStyle(el, n)\<close>
  with no value, or with the empty string as value, returns true iff \<open>getStyle(el, n)\<close>
  is a non-empty string, and \<open>hasStyle(el, n, v)\<close> with a non-empty value \<open>v\<close> returns
  true iff \<open>getStyle(el, n)\<close> equals \<open>v\<close>; when \<open>getStyle(el, n)\<close> raises, \<open>hasStyle\<close>
  raises the same error.
\<close>

theorem C9_hasStyle:
  "hasStyle el n None = map_sum id (\<lambda>got. got \<noteq> []) (getStyle el n)
   \<and> hasStyle el n (Some []) = map_sum id (\<lambda>got. got \<noteq> []) (getStyle el n)
   \<and> (v \<noteq> [] \<longrightarrow> hasStyle el n (Some v) = map_sum id (\<lambda>got. got = v) (getStyle el n))"
  by (cases "getStyle el n") (simp_all add: hasStyle_def Let_def)

text \<open>The amended claim C9 at an element with the style attribute \<open>color:red\<close>.\<close>

theorem C9_hasStyle_witness:
  "''red'' \<noteq> [] \<and> getStyle (styled ''color:red'') ''color'' = Inr ''red''
   \<and> hasStyle (styled ''color:red'') ''color'' (Some ''red'') = Inr True
   \<and> hasStyle (styled ''color:red'') ''color'' (Some ''blue'') = Inr False"
proof -
  have g: "getStyle (styled ''color:red'') ''color'' = Inr ''red''" by code_simp
  have n: "''red'' \<noteq> []" "''blue'' \<noteq> []" by simp_all
  from C9_hasStyle [of "styled ''color:red''" "''color''" "''red''"] n(1)
  have a: "hasStyle (styled ''color:red'') ''color'' (Some ''red'') = Inr True" by (simp add: g)
  from C9_hasStyle [of "styled ''color:red''" "''color''" "''blue''"] n(2)
  have b: "hasStyle (styled ''color:red'') ''color'' (Some ''blue'') = Inr False" by (simp add: g)
  show ?thesis using g a b by simp
qed

subsection \<open>Properties\<close>

text \<open>
  Claim C5.  After the attribute \<open>href\<close> has been set to a string \<open>v\<close>,
  \<open>getProperty(el, "href")\<close> returns \<open>v\<close> itself, whatever the direct property
  \<open>href\<close> of the element holds; \<open>getProperty(el, "innerText")\<close> returns the
  element's \<open>textContent\<close>; for every other name the result is the direct property read.
\<close>

theorem C5_getProperty:
  "getProperty (setAttribute el ''href'' (JStr v)) ''href'' = JStr v
   \<and> (el_getAttribute el ''href'' = Some v \<longrightarrow> getProperty el ''href'' = JStr v)
   \<and> getProperty el ''innerText'' = prop_read el ''textContent''
   \<and> (name \<noteq> ''href'' \<and> name \<noteq> ''innerText'' \<longrightarrow> getProperty el name = prop_read el name)"
  by (simp add: getProperty_def getAttribute_def setAttribute_def el_setAttribute_def
      el_getAttribute_def)

text \<open>
  Claim C5 at an anchor whose \<open>href\<close> attribute is \<open>/x\<close> while the direct read of
  \<open>href\<close> gives a resolved address, and at its ordinary property \<open>title\<close>.
\<close>

theorem C5_getProperty_witness:
  "el_getAttribute anchor_element ''href'' = Some ''/x''
   \<and> prop_read anchor_element ''href'' = JStr ''http://host/x''
   \<and> getProperty anchor_element ''href'' = JStr ''/x''
   \<and> ''title'' \<noteq> ''href'' \<and> ''title'' \<noteq> ''innerText''
   \<and> getProperty anchor_element ''title'' = JStr ''t''"
proof -
  have a: "el_getAttribute anchor_element ''href'' = Some ''/x''"
    by (simp add: el_getAttribute_def anchor_element_def)
  have p: "prop_read anchor_element ''href'' = JStr ''http://host/x''"
    by (simp add: prop_read_def anchor_element_def)
  have n: "''title'' \<noteq> ''href'' \<and> ''title'' \<noteq> ''innerText''" by simp
  have r: "prop_read anchor_element ''title'' = JStr ''t''"
    by (simp add: prop_read_def anchor_element_def)
  from C5_getProperty [of anchor_element "''/x''" "''title''"] a
  have h: "getProperty anchor_element ''href'' = JStr ''/x''" by simp
  from C5_getProperty [of anchor_element "''/x''" "''title''"] r
  have t: "getProperty anchor_element ''title'' = JStr ''t''" by simp
  show ?thesis using a p h t by simp
qed

text \<open>
  Claim C6.  Whatever the engine's property write does, \<open>setProperty(el, "href", v)\<close>
  writes \<open>v\<close> to the \<open>href\<close> attribute (through \<open>setAttribute\<close>, which stores its
  string form: \<open>v\<close> itself for a string) and then performs the direct property write of
  \<open>v\<close> to \<open>href\<close> on the element that carries that attribute;
  \<open>setProperty(el, "innerText", v)\<close> writes \<open>v\<close> to \<open>textContent\<close> and then performs
  the direct property write of \<open>v\<close> to \<open>innerText\<close>; for every other name it is the
  direct property write of \<open>v\<close> to that name on \<open>el\<close>, and nothing else.
\<close>

theorem C6_setProperty:
  "setProperty prop_write el ''href'' v = prop_write (setAttribute el ''href'' v) ''href'' v
   \<and> el_getAttribute (setAttribute el ''href'' v) ''href'' = Some (dom_string v)
   \<and> el_getAttribute (setAttribute el ''href'' (JStr s)) ''href'' = Some s
   \<and> setProperty prop_write el ''innerText'' v
       = prop_write (prop_write el ''textContent'' v) ''innerText'' v
   \<and> (name \<noteq> ''href'' \<and> name \<noteq> ''innerText'' \<longrightarrow>
        setProperty prop_write el name v = prop_write el name v)"
  by (simp add: setProperty_def setAttribute_def el_setAttribute_def el_getAttribute_def)

text \<open>
  Claim C6 under a property write that reflects \<open>title\<close> and \<open>href\<close> into attributes:
  setting \<open>title\<close> is that one write (which also leaves the \<open>title\<close> attribute), and
  after setting \<open>href\<close> the attribute holds the raw string while the direct read gives
  what the engine resolved.
\<close>

theorem C6_setProperty_witness:
  "''title'' \<noteq> ''href'' \<and> ''title'' \<noteq> ''innerText''
   \<and> setProperty reflecting_write blank_element ''title'' (JStr ''t'')
       = reflecting_write blank_element ''title'' (JStr ''t'')
   \<and> el_getAttribute (setProperty reflecting_write blank_element ''title'' (JStr ''t'')) ''title''
       = Some ''t''
   \<and> el_getAttribute (setProperty reflecting_write blank_element ''href'' (JStr ''/x'')) ''href''
       = Some ''/x''
   \<and> prop_read (setProperty reflecting_write blank_element ''href'' (JStr ''/x'')) ''href''
       = JStr ''http://host/x''"
proof -
  have n: "''title'' \<noteq> ''href'' \<and> ''title'' \<noteq> ''innerText''" by simp
  from C6_setProperty [of reflecting_write blank_element "JStr ''t''" "''t''" "''title''"]
  have "''title'' \<noteq> ''href'' \<and> ''title'' \<noteq> ''innerText'' \<longrightarrow>
        setProperty reflecting_write blank_element ''title'' (JStr ''t'')
        = reflecting_write blank_element ''title'' (JStr ''t'')"
    by (elim conjE)
  from this [rule_format, OF n]
  have t: "setProperty reflecting_write blank_element ''title'' (JStr ''t'')
        = reflecting_write blank_element ''title'' (JStr ''t'')" .
  from C6_setProperty [of reflecting_write blank_element "JStr ''/x''" "''/x''" "''title''"]
  have h: "setProperty reflecting_write blank_element ''href'' (JStr ''/x'')
        = reflecting_write (setAttribute blank_element ''href'' (JStr ''/x'')) ''href'' (JStr ''/x'')"
    by (elim conjE)
  have ta: "el_getAttribute (reflecting_write blank_element ''title'' (JStr ''t'')) ''title'' = Some ''t''"
    by (simp add: reflecting_write_def el_getAttribute_def)
  have ha: "el_getAttribute (reflecting_write (setAttribute blank_element ''href'' (JStr ''/x''))
              ''href'' (JStr ''/x'')) ''href'' = Some ''/x''"
    by (simp add: reflecting_write_def el_getAttribute_def)
  have hp: "prop_read (reflecting_write (setAttribute blank_element ''href'' (JStr ''/x''))
              ''href'' (JStr ''/x'')) ''href'' = JStr ''http://host/x''"
    by (simp add: reflecting_write_def prop_read_def)
  show ?thesis using n ta ha hp by (simp only: t h simp_thms)
qed

subsection \<open>Event dispatch\<close>

text \<open>
  Claim C8.  \<open>dispatchEvent(el, evt)\<close> dispatches \<open>evt\<close> on \<open>el\<close> and then, when the
  owning document of \<open>el\<close> (\<open>el\<close> itself when it has no owning document) has a default
  view, dispatches the same event on that default view: the deliveries it adds are one
  to \<open>el\<close> followed by one to the default view, so each target receives the event exactly
  once; without a default view the delivery to \<open>el\<close> is the only one.
\<close>

theorem C8_dispatchEvent:
  "dispatchEvent d el evt deliveries =
     deliveries @ (NodeTarget el, evt) #
       (case defaultView (d (case ownerDocument (d el) of Some owner \<Rightarrow> owner | None \<Rightarrow> el)) of
          Some w \<Rightarrow> [(WindowTarget w, evt)]
        | None \<Rightarrow> [])
   \<and> count_list (drop (length deliveries) (dispatchEvent d el evt deliveries)) (NodeTarget el, evt) = 1
   \<and> (defaultView (d (case ownerDocument (d el) of Some owner \<Rightarrow> owner | None \<Rightarrow> el)) = Some w \<longrightarrow>
        count_list (drop (length deliveries) (dispatchEvent d el evt deliveries)) (WindowTarget w, evt) = 1)
   \<and> (defaultView (d (case ownerDocument (d el) of Some owner \<Rightarrow> owner | None \<Rightarrow> el)) = None \<longrightarrow>
        drop (length deliveries) (dispatchEvent d el evt deliveries) = [(NodeTarget el, evt)])"
  by (simp add: dispatchEvent_def native_dispatch_def Let_def split: option.split)

text \<open>
  Claim C8 at an element of a document with a window, and at a detached node without a
  default view.
\<close>

theorem C8_dispatchEvent_witness:
  "defaultView (window_dom (case ownerDocument (window_dom 1) of Some owner \<Rightarrow> owner | None \<Rightarrow> 1)) = Some 7
   \<and> dispatchEvent window_dom 1 ''click'' [] = [(NodeTarget 1, ''click''), (WindowTarget 7, ''click'')]
   \<and> count_list (drop (length []) (dispatchEvent window_dom 1 ''click'' [])) (WindowTarget 7, ''click'') = 1
   \<and> defaultView (detached_dom (case ownerDocument (detached_dom 0) of Some owner \<Rightarrow> owner | None \<Rightarrow> 0)) = None
   \<and> drop (length []) (dispatchEvent detached_dom 0 ''click'' []) = [(NodeTarget 0, ''click'')]"
proof -
  have w: "defaultView (window_dom (case ownerDocument (window_dom 1) of Some owner \<Rightarrow> owner | None \<Rightarrow> 1)) = Some 7"
    by (simp add: window_dom_def)
  have n: "defaultView (detached_dom (case ownerDocument (detached_dom 0) of Some owner \<Rightarrow> owner | None \<Rightarrow> 0)) = None"
    by (simp add: detached_dom_def)
  from C8_dispatchEvent [of window_dom 1 "''click''" "[]" 7] w
  have a: "dispatchEvent window_dom 1 ''click'' [] = [(NodeTarget 1, ''click''), (WindowTarget 7, ''click'')]"
    and b: "count_list (drop (length []) (dispatchEvent window_dom 1 ''click'' [])) (WindowTarget 7, ''click'') = 1"
    by simp_all
  from C8_dispatchEvent [of detached_dom 0 "''click''" "[]" 7] n
  have c: "drop (length []) (dispatchEvent detached_dom 0 ''click'' []) = [(NodeTarget 0, ''click'')]"
    by simp
  show ?thesis using w n a b c by simp
qed

subsection \<open>Node classifiers\<close>

text \<open>
  Claim C10.  \<open>isTextNode\<close> and \<open>isCommentNode\<close> read the node type constants from the
  static default document without creating it: before \<open>getDefaultDocument()\<close> has been
  called the field is undefined and both fail with a type error, for every node.  In the
  state after a call of \<open>getDefaultDocument()\<close> both return, comparing the node's
  \<open>nodeType\<close> with the \<open>TEXT_NODE\<close> and \<open>COMMENT_NODE\<close> constants of the document that
  call returned, and every later call returns that same document and leaves the state
  as it is.
\<close>

theorem C10_classifiers_need_default_document:
  "isTextNode initial_static nd = Inl TypeError
   \<and> isCommentNode initial_static nd = Inl TypeError
   \<and> getDefaultDocument created initial_static = (created, \<lparr>defaultDoc = Some created\<rparr>)
   \<and> isTextNode (snd (getDefaultDocument created st)) nd
       = Inr (nodeType nd = TEXT_NODE (fst (getDefaultDocument created st)))
   \<and> isCommentNode (snd (getDefaultDocument created st)) nd
       = Inr (nodeType nd = COMMENT_NODE (fst (getDefaultDocument created st)))
   \<and> getDefaultDocument created' (snd (getDefaultDocument created st)) = getDefaultDocument created st"
  by (simp add: isTextNode_def isCommentNode_def getDefaultDocument_def initial_static_def
      split: option.split)

end
